theory Spec2Isabelle
  imports Complex_Main "HOL-Library.AList" "HOL-Library.Sublist"
begin

section \<open>Python values shared by both scripts\<close>

text \<open>
  Both scripts are Python. Integers are unbounded (\<open>int\<close>); a \<open>str\<close> is a
  \<open>string\<close> whose characters are the code points below 256. Every exception the
  modelled statements can raise is a value of \<open>py_error\<close>, and a computation that may
  raise returns \<open>py_error + 'a\<close>. The percentages of the profile report are kept as
  exact quotients of integers; the floats of the benchmark comparison are values of a
  type parameter with the float operations as parameters, introduced with that script.
\<close>

datatype py_error = IndexError | ValueError | ZeroDivisionError

definition ebind :: "py_error + 'a \<Rightarrow> ('a \<Rightarrow> py_error + 'b) \<Rightarrow> py_error + 'b" where
  "ebind m f = (case m of Inl e \<Rightarrow> Inl e | Inr x \<Rightarrow> f x)"

text \<open>A \<open>for\<close> loop that evaluates a fallible body per element, stopping at the first raise.\<close>

fun emap :: "('a \<Rightarrow> py_error + 'b) \<Rightarrow> 'a list \<Rightarrow> py_error + 'b list" where
  "emap f [] = Inr []"
| "emap f (x # xs) = ebind (f x) (\<lambda>y. ebind (emap f xs) (\<lambda>ys. Inr (y # ys)))"

text \<open>\<open>a / b\<close> on two ints: true division, raising on a zero divisor.\<close>

definition int_truediv :: "int \<Rightarrow> int \<Rightarrow> py_error + real" where
  "int_truediv a b = (if b = 0 then Inl ZeroDivisionError else Inr (real_of_int a / real_of_int b))"

text \<open>\<open>xs[i]\<close> on a list: positions \<open>0 .. len - 1\<close>, and \<open>-len .. -1\<close> read from
  the end; every other index raises.\<close>

definition py_getitem :: "'a list \<Rightarrow> int \<Rightarrow> py_error + 'a" where
  "py_getitem xs i =
     (if 0 \<le> i \<and> i < int (length xs) then Inr (xs ! nat i)
      else if - int (length xs) \<le> i \<and> i < 0 then Inr (xs ! nat (int (length xs) + i))
      else Inl IndexError)"

text \<open>\<open>str.lower()\<close> on code points below 256: A-Z and the accented capitals
  U+00C0..U+00DE (without the multiplication sign U+00D7) move up by 32.\<close>

definition lower_char :: "char \<Rightarrow> char" where
  "lower_char c =
     (let n = (of_char c :: nat)
      in if (65 \<le> n \<and> n \<le> 90) \<or> (192 \<le> n \<and> n \<le> 222 \<and> n \<noteq> 215)
         then char_of (n + 32) else c)"

definition lower :: "string \<Rightarrow> string" where
  "lower s = map lower_char s"

section \<open>analyze\_profiles.py\<close>

subsection \<open>Input: the loaded JSON document\<close>

text \<open>
  \<open>data['shared']['frames']\<close> is a list of frame objects, of which only the optional
  \<open>name\<close> is read; \<open>data['profiles']\<close> is a list of profiles, of which only
  \<open>samples\<close> is read: a list of stacks, each a list of frame indices.
\<close>

record shared =
  frames :: "string option list"

record profile =
  samples :: "int list list"

record speedscope =
  shared :: shared
  profiles :: "profile list"

definition frame_names :: "speedscope \<Rightarrow> string list" where
  "frame_names data = map (\<lambda>f. case f of None \<Rightarrow> ''unknown'' | Some n \<Rightarrow> n) (frames (shared data))"

subsection \<open>\<open>collections.Counter\<close>\<close>

text \<open>
  A Counter is a dict, and a dict keeps its keys in the order of their first insertion:
  an association list. Reading a missing key gives 0 and inserts nothing;
  \<open>c[k] += 1\<close> reads, adds one and stores, which replaces the value in place when the
  key is present and appends the key otherwise.
\<close>

type_synonym counter = "(int \<times> int) list"

definition counter_get :: "counter \<Rightarrow> int \<Rightarrow> int" where
  "counter_get c k = (case map_of c k of None \<Rightarrow> 0 | Some v \<Rightarrow> v)"

definition counter_incr :: "counter \<Rightarrow> int \<Rightarrow> counter" where
  "counter_incr c k = AList.update k (counter_get c k + 1) c"

text \<open>
  \<open>most_common(n)\<close> is \<open>heapq.nlargest(n, self.items(), key=itemgetter(1))\<close>, which
  the standard library documents as \<open>sorted(items, key=key, reverse=True)[:n]\<close>; the
  sort is stable, also under \<open>reverse=True\<close>. An insertion sort on the negated
  count is such a sort.
\<close>

definition most_common :: "nat \<Rightarrow> counter \<Rightarrow> (int \<times> int) list" where
  "most_common n c = take n (sort_key (\<lambda>(k, v). - v) c)"

subsection \<open>The accumulation loop\<close>

record counts =
  total_samples :: int
  exclusive_counter :: counter
  inclusive_counter :: counter

text \<open>
  The body of \<open>for stack in samples\<close>. The order in which \<open>for frame_idx in
  set(stack)\<close> visits the distinct elements of the stack is the hash-table order of
  the interpreter; it is the parameter \<open>set_iter\<close>, of which \<open>set_iter_ok\<close> says
  what every Python set guarantees: each element of the stack once.
\<close>

definition set_iter_ok :: "(int list \<Rightarrow> int list) \<Rightarrow> bool" where
  "set_iter_ok set_iter = (\<forall>stack. distinct (set_iter stack) \<and> set (set_iter stack) = set stack)"

definition process_stack :: "(int list \<Rightarrow> int list) \<Rightarrow> counts \<Rightarrow> int list \<Rightarrow> counts" where
  "process_stack set_iter st stack =
     (if stack = [] then st
      else st\<lparr>exclusive_counter := counter_incr (exclusive_counter st) (last stack),
              inclusive_counter := foldl counter_incr (inclusive_counter st) (set_iter stack)\<rparr>)"

text \<open>The body of \<open>for profile in data['profiles']\<close>.\<close>

definition process_profile :: "(int list \<Rightarrow> int list) \<Rightarrow> counts \<Rightarrow> profile \<Rightarrow> counts" where
  "process_profile set_iter st p =
     foldl (process_stack set_iter)
       (st\<lparr>total_samples := total_samples st + int (length (samples p))\<rparr>) (samples p)"

definition accumulate :: "(int list \<Rightarrow> int list) \<Rightarrow> profile list \<Rightarrow> counts" where
  "accumulate set_iter ps =
     foldl (process_profile set_iter)
       \<lparr>total_samples = 0, exclusive_counter = [], inclusive_counter = []\<rparr> ps"

subsection \<open>The printed report\<close>

record listing_line =
  line_count :: int
  line_percent :: real
  line_name :: string

record target_line =
  target :: string
  total_inc :: int
  inc_percent :: real
  total_exc :: int
  exc_percent :: real

record report =
  report_total :: int
  top_exclusive :: "listing_line list"
  top_inclusive :: "listing_line list"
  specific_checks :: "target_line list"

text \<open>One line of a top-20 listing; the f-string evaluates the percentage before the name.\<close>

definition print_frame :: "string list \<Rightarrow> int \<Rightarrow> int \<times> int \<Rightarrow> py_error + listing_line" where
  "print_frame fnames n_samples fc =
     (case fc of (frame_idx, count) \<Rightarrow>
        ebind (int_truediv (100 * count) n_samples) (\<lambda>pct.
        ebind (py_getitem fnames frame_idx) (\<lambda>name.
        Inr \<lparr>line_count = count, line_percent = pct, line_name = name\<rparr>)))"

definition targets :: "string list" where
  "targets = [''__lll_lock_wake_private'', ''ArcSwap'', ''Mutex'', ''RwLock'', ''Rayon'',
     ''IndexMap'', ''shift_remove'', ''malloc'', ''cfree'', ''Vec::push'', ''collect'',
     ''alloc'', ''dealloc'']"

text \<open>\<open>t.lower() in name.lower()\<close> is the contiguous-sublist test on the lowered strings.\<close>

definition matches :: "string list \<Rightarrow> string \<Rightarrow> (nat \<times> string) list" where
  "matches fnames t = filter (\<lambda>(idx, name). sublist (lower t) (lower name)) (enumerate 0 fnames)"

text \<open>The body of \<open>for t in targets\<close>: the line it prints, if it prints one.\<close>

definition check_target :: "string list \<Rightarrow> counts \<Rightarrow> string \<Rightarrow> py_error + target_line option" where
  "check_target fnames st t =
     (let ms = matches fnames t;
          tinc = sum_list (map (\<lambda>(idx, name). counter_get (inclusive_counter st) (int idx)) ms);
          texc = sum_list (map (\<lambda>(idx, name). counter_get (exclusive_counter st) (int idx)) ms)
      in if tinc > 0
         then ebind (int_truediv (100 * tinc) (total_samples st)) (\<lambda>ip.
              ebind (int_truediv (100 * texc) (total_samples st)) (\<lambda>ep.
              Inr (Some \<lparr>target = t, total_inc = tinc, inc_percent = ip,
                         total_exc = texc, exc_percent = ep\<rparr>)))
         else Inr None)"

text \<open>
  The whole function after \<open>json.load\<close>, as the report it prints. The first statement
  that raises ends the run with that error; the lines printed before it are not kept.
\<close>

definition analyze_profile :: "(int list \<Rightarrow> int list) \<Rightarrow> speedscope \<Rightarrow> py_error + report" where
  "analyze_profile set_iter data =
     (let fnames = frame_names data;
          st = accumulate set_iter (profiles data)
      in ebind (emap (print_frame fnames (total_samples st))
                  (most_common 20 (exclusive_counter st))) (\<lambda>exl.
         ebind (emap (print_frame fnames (total_samples st))
                  (most_common 20 (inclusive_counter st))) (\<lambda>inl.
         ebind (emap (check_target fnames st) targets) (\<lambda>tls.
         Inr \<lparr>report_total = total_samples st, top_exclusive = exl, top_inclusive = inl,
              specific_checks = List.map_filter id tls\<rparr>))))"

section \<open>compare\_benchmarks.py\<close>

subsection \<open>The regular expression\<close>

text \<open>
  \<open>re.search(r'\| Runs.*?\n\|(.*?)\n\n', content, re.DOTALL)\<close>: a backtracking
  matcher in continuation-passing form. Each matcher takes the matcher of the rest of the
  pattern and the text at the current position, and returns how many characters the
  match consumes from there, trying its alternatives in the order the \<open>re\<close> module
  does: a lazy \<open>.*?\<close> first tries to stop, then to take one more character (any
  character, newline too, under \<open>DOTALL\<close>); \<open>search\<close> tries every start position
  from the left. The result is \<open>match.group(0)\<close>; the group inside is never read.
\<close>

definition re_end :: "string \<Rightarrow> nat option" where
  "re_end s = Some 0"

definition re_lit :: "string \<Rightarrow> (string \<Rightarrow> nat option) \<Rightarrow> string \<Rightarrow> nat option" where
  "re_lit p k s =
     (if prefix p s then map_option (\<lambda>n. length p + n) (k (drop (length p) s)) else None)"

fun re_lazy_any :: "(string \<Rightarrow> nat option) \<Rightarrow> string \<Rightarrow> nat option" where
  "re_lazy_any k [] = k []"
| "re_lazy_any k (c # s) =
     (case k (c # s) of Some n \<Rightarrow> Some n | None \<Rightarrow> map_option Suc (re_lazy_any k s))"

fun re_search :: "(string \<Rightarrow> nat option) \<Rightarrow> string \<Rightarrow> string option" where
  "re_search m [] = map_option (\<lambda>n. take n []) (m [])"
| "re_search m (c # s) =
     (case m (c # s) of Some n \<Rightarrow> Some (take n (c # s)) | None \<Rightarrow> re_search m s)"

definition table_pattern :: "string \<Rightarrow> nat option" where
  "table_pattern =
     re_lit ''| Runs'' (re_lazy_any (re_lit ''\<newline>|'' (re_lazy_any (re_lit ''\<newline>\<newline>'' re_end))))"

subsection \<open>String methods\<close>

text \<open>\<open>s.split(sep)\<close> for a one-character separator: one more piece than separators.\<close>

fun split_on :: "char \<Rightarrow> string \<Rightarrow> string list" where
  "split_on sep [] = [[]]"
| "split_on sep (c # s) =
     (if c = sep then [] # split_on sep s
      else (case split_on sep s of [] \<Rightarrow> [[c]] | w # ws \<Rightarrow> (c # w) # ws))"

text \<open>\<open>str.isspace\<close> on code points below 256, and \<open>s.strip()\<close>.\<close>

definition isspace :: "char \<Rightarrow> bool" where
  "isspace c =
     (let n = (of_char c :: nat)
      in (9 \<le> n \<and> n \<le> 13) \<or> (28 \<le> n \<and> n \<le> 32) \<or> n = 133 \<or> n = 160)"

definition strip :: "string \<Rightarrow> string" where
  "strip s = rev (dropWhile isspace (rev (dropWhile isspace s)))"

subsection \<open>\<open>parse_times\<close>\<close>

text \<open>
  The builtins \<open>int(str)\<close> and \<open>float(str)\<close> are the parameters \<open>py_int\<close> and
  \<open>py_float\<close>; \<open>None\<close> is their \<open>ValueError\<close>.
\<close>

definition convert :: "(string \<Rightarrow> 'a option) \<Rightarrow> string \<Rightarrow> py_error + 'a" where
  "convert f s = (case f s of None \<Rightarrow> Inl ValueError | Some v \<Rightarrow> Inr v)"

text \<open>A parsed row: population size, region count, elapsed time as a float of type \<open>'f\<close>.\<close>

type_synonym 'f bench_row = "int \<times> int \<times> 'f"

text \<open>The three assignments under \<open>if len(parts) >= 9\<close>, in their order.\<close>

definition parse_row ::
  "(string \<Rightarrow> int option) \<Rightarrow> (string \<Rightarrow> 'f option) \<Rightarrow> string list \<Rightarrow> py_error + 'f bench_row" where
  "parse_row py_int py_float parts =
     ebind (py_getitem parts 2) (\<lambda>f2. ebind (convert py_int (strip f2)) (\<lambda>pop.
     ebind (py_getitem parts 3) (\<lambda>f3. ebind (convert py_int (strip f3)) (\<lambda>regions.
     ebind (py_getitem parts 9) (\<lambda>f9. ebind (convert py_float (strip f9)) (\<lambda>time.
     Inr (pop, regions, time)))))))"

text \<open>\<open>for line in lines\<close>, with the list \<open>times\<close> it appends to.\<close>

fun parse_lines ::
  "(string \<Rightarrow> int option) \<Rightarrow> (string \<Rightarrow> 'f option) \<Rightarrow> string list \<Rightarrow> 'f bench_row list
     \<Rightarrow> py_error + 'f bench_row list" where
  "parse_lines py_int py_float [] times_so_far = Inr times_so_far"
| "parse_lines py_int py_float (line # lines) times_so_far =
     (let parts = split_on CHR ''|'' line
      in if length parts \<ge> 9
         then ebind (parse_row py_int py_float parts)
                (\<lambda>row. parse_lines py_int py_float lines (times_so_far @ [row]))
         else parse_lines py_int py_float lines times_so_far)"

text \<open>
  \<open>parse_times\<close> on the text read from the file. The slice \<open>[2:-2]\<close> of a list of
  length \<open>n\<close> holds the positions from 2 up to, not including, \<open>n - 2\<close>.
\<close>

definition parse_times ::
  "(string \<Rightarrow> int option) \<Rightarrow> (string \<Rightarrow> 'f option) \<Rightarrow> string \<Rightarrow> py_error + 'f bench_row list" where
  "parse_times py_int py_float content =
     (case re_search table_pattern content of
        None \<Rightarrow> Inr []
      | Some group0 \<Rightarrow>
          (let ls = split_on CHR ''\<newline>'' group0;
               lines = drop 2 (take (length ls - 2) ls)
           in parse_lines py_int py_float lines []))"

subsection \<open>Floats and mixed arithmetic\<close>

text \<open>
  A Python float is an IEEE double. Its arithmetic is not fixed here: the type \<open>'f\<close> of
  floats and the operations the script applies to them are parameters, so that every
  float of the model is written with the operations of the code, in the order of the
  code, and rounding, infinities and NaN are whatever the operations make of them.
  \<open>fl_of_int\<close> is the conversion of an int operand that meets a float,
  \<open>fl_int_div\<close> the true division of two ints, \<open>fl_pos x\<close> the comparison
  \<open>x > 0\<close> and \<open>fl_is_zero x\<close> the test \<open>x == 0\<close> that decides whether a
  division by \<open>x\<close> raises.
\<close>

record 'f float_ops =
  fl_of_int :: "int \<Rightarrow> 'f"
  fl_add :: "'f \<Rightarrow> 'f \<Rightarrow> 'f"
  fl_sub :: "'f \<Rightarrow> 'f \<Rightarrow> 'f"
  fl_mul :: "'f \<Rightarrow> 'f \<Rightarrow> 'f"
  fl_div :: "'f \<Rightarrow> 'f \<Rightarrow> 'f"
  fl_int_div :: "int \<Rightarrow> int \<Rightarrow> 'f"
  fl_pos :: "'f \<Rightarrow> bool"
  fl_is_zero :: "'f \<Rightarrow> bool"

text \<open>
  The totals start as the int \<open>0\<close> and turn into floats with the first row added, and
  the percentage is the int \<open>0\<close> when its guard fails: a number of the script is an
  int or a float. Arithmetic on two ints is exact; otherwise the int operand is converted
  and the float operation applies.
\<close>

datatype 'f py_num = PyInt int | PyFloat 'f

fun to_float :: "'f float_ops \<Rightarrow> 'f py_num \<Rightarrow> 'f" where
  "to_float ops (PyInt i) = fl_of_int ops i"
| "to_float ops (PyFloat x) = x"

fun py_add :: "'f float_ops \<Rightarrow> 'f py_num \<Rightarrow> 'f py_num \<Rightarrow> 'f py_num" where
  "py_add ops (PyInt i) (PyInt j) = PyInt (i + j)"
| "py_add ops a b = PyFloat (fl_add ops (to_float ops a) (to_float ops b))"

fun py_sub :: "'f float_ops \<Rightarrow> 'f py_num \<Rightarrow> 'f py_num \<Rightarrow> 'f py_num" where
  "py_sub ops (PyInt i) (PyInt j) = PyInt (i - j)"
| "py_sub ops a b = PyFloat (fl_sub ops (to_float ops a) (to_float ops b))"

fun py_mul :: "'f float_ops \<Rightarrow> 'f py_num \<Rightarrow> 'f py_num \<Rightarrow> 'f py_num" where
  "py_mul ops (PyInt i) (PyInt j) = PyInt (i * j)"
| "py_mul ops a b = PyFloat (fl_mul ops (to_float ops a) (to_float ops b))"

text \<open>\<open>a / b\<close>: it raises exactly when the divisor is zero.\<close>

fun py_truediv :: "'f float_ops \<Rightarrow> 'f py_num \<Rightarrow> 'f py_num \<Rightarrow> py_error + 'f py_num" where
  "py_truediv ops (PyInt i) (PyInt j) =
     (if j = 0 then Inl ZeroDivisionError else Inr (PyFloat (fl_int_div ops i j)))"
| "py_truediv ops a b =
     (if fl_is_zero ops (to_float ops b) then Inl ZeroDivisionError
      else Inr (PyFloat (fl_div ops (to_float ops a) (to_float ops b))))"

text \<open>\<open>a > 0\<close>.\<close>

fun py_gt0 :: "'f float_ops \<Rightarrow> 'f py_num \<Rightarrow> bool" where
  "py_gt0 ops (PyInt i) = (i > 0)"
| "py_gt0 ops (PyFloat x) = fl_pos ops x"

subsection \<open>The comparison\<close>

record 'f comparison_row =
  row_pop :: int
  row_reg :: int
  row_old :: 'f
  row_new :: 'f
  row_change :: "'f py_num"
  row_pct :: "'f py_num"

record 'f case_report =
  case_name :: string
  case_rows :: "'f comparison_row list"
  case_total_old :: "'f py_num"
  case_total_new :: "'f py_num"
  case_total_change :: "'f py_num"
  case_total_pct :: "'f py_num"

record 'f summary =
  grand_total_old :: "'f py_num"
  grand_total_new :: "'f py_num"
  grand_change :: "'f py_num"
  grand_pct :: "'f py_num"

record 'f comparison =
  case_reports :: "'f case_report list"
  overall :: "'f summary"

text \<open>\<open>(change / old * 100) if old > 0 else 0\<close>, the expression used three times.\<close>

definition pct_of :: "'f float_ops \<Rightarrow> 'f py_num \<Rightarrow> 'f py_num \<Rightarrow> py_error + 'f py_num" where
  "pct_of ops change old =
     (if py_gt0 ops old
      then ebind (py_truediv ops change old) (\<lambda>q. Inr (py_mul ops q (PyInt 100)))
      else Inr (PyInt 0))"

text \<open>\<open>for (pop, reg, old_t), (_, _, new_t) in zip(old_times, new_times)\<close>, with the
  two running totals and the rows printed so far.\<close>

fun compare_rows ::
  "'f float_ops \<Rightarrow> ('f bench_row \<times> 'f bench_row) list
     \<Rightarrow> 'f py_num \<times> 'f py_num \<times> 'f comparison_row list
     \<Rightarrow> py_error + ('f py_num \<times> 'f py_num \<times> 'f comparison_row list)" where
  "compare_rows ops [] acc = Inr acc"
| "compare_rows ops (((pop, reg, old_t), (_, _, new_t)) # rest) (total_old, total_new, out) =
     (let change = py_sub ops (PyFloat new_t) (PyFloat old_t)
      in ebind (pct_of ops change (PyFloat old_t)) (\<lambda>pct_change.
           compare_rows ops rest
             (py_add ops total_old (PyFloat old_t), py_add ops total_new (PyFloat new_t),
              out @ [\<lparr>row_pop = pop, row_reg = reg, row_old = old_t, row_new = new_t,
                      row_change = change, row_pct = pct_change\<rparr>])))"

text \<open>The body of the loop over the benchmark cases, after the two files are parsed.\<close>

definition compare_case ::
  "'f float_ops \<Rightarrow> string \<Rightarrow> 'f bench_row list \<Rightarrow> 'f bench_row list \<Rightarrow> py_error + 'f case_report" where
  "compare_case ops name old_times new_times =
     ebind (compare_rows ops (zip old_times new_times) (PyInt 0, PyInt 0, []))
       (\<lambda>(total_old, total_new, out).
          let total_change = py_sub ops total_new total_old
          in ebind (pct_of ops total_change total_old) (\<lambda>total_pct.
               Inr \<lparr>case_name = name, case_rows = out, case_total_old = total_old,
                    case_total_new = total_new, case_total_change = total_change,
                    case_total_pct = total_pct\<rparr>))"

definition names :: "string list" where
  "names = [''Styblinski-Tang'', ''Ackley'', ''Himmelblau'']"

text \<open>
  \<open>for name, old_file, new_file in zip(names, old_files, new_files)\<close>, with the two
  grand totals and the cases printed so far. A case arrives as its name and the texts of
  its two files; opening the files is outside the model.
\<close>

fun compare_cases ::
  "'f float_ops \<Rightarrow> (string \<Rightarrow> int option) \<Rightarrow> (string \<Rightarrow> 'f option)
     \<Rightarrow> (string \<times> string \<times> string) list
     \<Rightarrow> 'f py_num \<times> 'f py_num \<times> 'f case_report list
     \<Rightarrow> py_error + ('f py_num \<times> 'f py_num \<times> 'f case_report list)" where
  "compare_cases ops py_int py_float [] acc = Inr acc"
| "compare_cases ops py_int py_float ((name, old_text, new_text) # rest) (g_old, g_new, out) =
     ebind (parse_times py_int py_float old_text) (\<lambda>old_times.
     ebind (parse_times py_int py_float new_text) (\<lambda>new_times.
     ebind (compare_case ops name old_times new_times) (\<lambda>rep.
     compare_cases ops py_int py_float rest
       (py_add ops g_old (case_total_old rep), py_add ops g_new (case_total_new rep),
        out @ [rep]))))"

text \<open>The lines under OVERALL SUMMARY.\<close>

definition overall_summary :: "'f float_ops \<Rightarrow> 'f py_num \<Rightarrow> 'f py_num \<Rightarrow> py_error + 'f summary" where
  "overall_summary ops g_old g_new =
     (let g_change = py_sub ops g_new g_old
      in ebind (pct_of ops g_change g_old) (\<lambda>g_pct.
           Inr \<lparr>grand_total_old = g_old, grand_total_new = g_new,
                grand_change = g_change, grand_pct = g_pct\<rparr>))"

text \<open>The script, on the texts of \<open>old_files\<close> and of \<open>new_files\<close>.\<close>

definition compare_benchmarks ::
  "'f float_ops \<Rightarrow> (string \<Rightarrow> int option) \<Rightarrow> (string \<Rightarrow> 'f option) \<Rightarrow> string list \<Rightarrow> string list
     \<Rightarrow> py_error + 'f comparison" where
  "compare_benchmarks ops py_int py_float old_texts new_texts =
     ebind (compare_cases ops py_int py_float (zip names (zip old_texts new_texts))
              (PyInt 0, PyInt 0, []))
       (\<lambda>(g_old, g_new, out).
          ebind (overall_summary ops g_old g_new) (\<lambda>s.
            Inr \<lparr>case_reports = out, overall = s\<rparr>))"

section \<open>Specification-level notions\<close>

text \<open>All samples of the input, in the order the loops visit them.\<close>

definition all_samples :: "profile list \<Rightarrow> int list list" where
  "all_samples ps = concat (map samples ps)"

text \<open>The keys incremented by one stack, in order, in each of the two counters.\<close>

definition exclusive_events :: "int list \<Rightarrow> int list" where
  "exclusive_events stack = (if stack = [] then [] else [last stack])"

definition inclusive_events :: "(int list \<Rightarrow> int list) \<Rightarrow> int list \<Rightarrow> int list" where
  "inclusive_events set_iter stack = (if stack = [] then [] else set_iter stack)"

text \<open>The input with every empty stack removed.\<close>

definition without_empty :: "profile list \<Rightarrow> profile list" where
  "without_empty ps = map (\<lambda>p. p\<lparr>samples := filter (\<lambda>stack. stack \<noteq> []) (samples p)\<rparr>) ps"

text \<open>The position of the first increment of a key in a sequence of increments, and the
  order of a ranked listing: a larger count first, and among equal counts the key that
  was incremented first.\<close>

definition first_index :: "int list \<Rightarrow> int \<Rightarrow> nat" where
  "first_index evs k = length (takeWhile (\<lambda>e. e \<noteq> k) evs)"

definition ranks_before :: "int list \<Rightarrow> int \<times> int \<Rightarrow> int \<times> int \<Rightarrow> bool" where
  "ranks_before evs a b =
     (snd b < snd a \<or> (snd a = snd b \<and> first_index evs (fst a) < first_index evs (fst b)))"

text \<open>A ranking of a counter: all its items, none twice, in the order of a ranked listing.\<close>

definition is_ranking :: "int list \<Rightarrow> counter \<Rightarrow> (int \<times> int) list \<Rightarrow> bool" where
  "is_ranking evs c r = (set r = set c \<and> distinct r \<and> sorted_wrt (ranks_before evs) r)"

text \<open>
  What the comparison relies on of the float operations: a number that compares greater
  than zero, a float or an int that is then converted, is not a zero divisor. IEEE
  comparison, conversion and Python's division agree on this.
\<close>

definition float_ok :: "'f float_ops \<Rightarrow> bool" where
  "float_ok ops = (\<forall>a. py_gt0 ops a \<longrightarrow> \<not> fl_is_zero ops (to_float ops a))"

text \<open>The quotient of a division that does not raise, and the guarded percentage of the
  specification, computed with the operations and in the order of the code.\<close>

fun py_quot :: "'f float_ops \<Rightarrow> 'f py_num \<Rightarrow> 'f py_num \<Rightarrow> 'f py_num" where
  "py_quot ops (PyInt i) (PyInt j) = PyFloat (fl_int_div ops i j)"
| "py_quot ops a b = PyFloat (fl_div ops (to_float ops a) (to_float ops b))"

definition guarded_pct :: "'f float_ops \<Rightarrow> 'f py_num \<Rightarrow> 'f py_num \<Rightarrow> 'f py_num" where
  "guarded_pct ops old new =
     (if py_gt0 ops old then py_mul ops (py_quot ops (py_sub ops new old) old) (PyInt 100)
      else PyInt 0)"

text \<open>
  Floats as real numbers whose every arithmetic result passes through a rounding
  function; ints convert exactly. With the identity as rounding the arithmetic is exact.
\<close>

definition rounded_ops :: "(real \<Rightarrow> real) \<Rightarrow> real float_ops" where
  "rounded_ops rnd =
     \<lparr>fl_of_int = real_of_int,
      fl_add = (\<lambda>a b. rnd (a + b)),
      fl_sub = (\<lambda>a b. rnd (a - b)),
      fl_mul = (\<lambda>a b. rnd (a * b)),
      fl_div = (\<lambda>a b. rnd (a / b)),
      fl_int_div = (\<lambda>i j. rnd (real_of_int i / real_of_int j)),
      fl_pos = (\<lambda>x. x > 0),
      fl_is_zero = (\<lambda>x. x = 0)\<rparr>"

definition exact_ops :: "real float_ops" where
  "exact_ops = rounded_ops (\<lambda>x. x)"

text \<open>The texts in which the pattern has a match: somewhere \<open>| Runs\<close>, later a newline
  followed by a bar, later two newlines.\<close>

definition has_table :: "string \<Rightarrow> bool" where
  "has_table content =
     (\<exists>pre a b post. content = pre @ ''| Runs'' @ a @ ''\<newline>|'' @ b @ ''\<newline>\<newline>'' @ post)"

text \<open>The frames whose name contains the target when case is ignored, the sum of a
  counter over a set of frames, and the summary line of a target: present exactly when
  the inclusive sum is not zero.\<close>

definition matching_frames :: "string list \<Rightarrow> string \<Rightarrow> nat set" where
  "matching_frames fnames t = {idx. idx < length fnames \<and> sublist (lower t) (lower (fnames ! idx))}"

definition summed :: "counter \<Rightarrow> nat set \<Rightarrow> int" where
  "summed c F = (\<Sum>idx \<in> F. counter_get c (int idx))"

definition expected_line :: "string list \<Rightarrow> counts \<Rightarrow> string \<Rightarrow> target_line option" where
  "expected_line fnames st t =
     (let F = matching_frames fnames t;
          i = summed (inclusive_counter st) F;
          e = summed (exclusive_counter st) F
      in if i \<noteq> 0
         then Some \<lparr>target = t, total_inc = i,
                    inc_percent = real_of_int (100 * i) / real_of_int (total_samples st),
                    total_exc = e,
                    exc_percent = real_of_int (100 * e) / real_of_int (total_samples st)\<rparr>
         else None)"

text \<open>The row the comparison prints for a pair of parsed rows, the totals of the old and
  of the new times over the paired rows, added from the int 0 in the order of the rows, and
  the report of a case without rows.\<close>

definition expected_row :: "'f float_ops \<Rightarrow> 'f bench_row \<times> 'f bench_row \<Rightarrow> 'f comparison_row" where
  "expected_row ops pair =
     (case pair of ((pop, reg, old_t), (_, _, new_t)) \<Rightarrow>
        \<lparr>row_pop = pop, row_reg = reg, row_old = old_t, row_new = new_t,
         row_change = PyFloat (fl_sub ops new_t old_t),
         row_pct = guarded_pct ops (PyFloat old_t) (PyFloat new_t)\<rparr>)"

definition paired_old :: "'f float_ops \<Rightarrow> 'f bench_row list \<Rightarrow> 'f bench_row list \<Rightarrow> 'f py_num" where
  "paired_old ops old_times new_times =
     foldl (py_add ops) (PyInt 0)
       (map (\<lambda>((_, _, old_t), _). PyFloat old_t) (zip old_times new_times))"

definition paired_new :: "'f float_ops \<Rightarrow> 'f bench_row list \<Rightarrow> 'f bench_row list \<Rightarrow> 'f py_num" where
  "paired_new ops old_times new_times =
     foldl (py_add ops) (PyInt 0)
       (map (\<lambda>(_, (_, _, new_t)). PyFloat new_t) (zip old_times new_times))"

definition empty_case :: "string \<Rightarrow> 'f case_report" where
  "empty_case name =
     \<lparr>case_name = name, case_rows = [], case_total_old = PyInt 0, case_total_new = PyInt 0,
      case_total_change = PyInt 0, case_total_pct = PyInt 0\<rparr>"

section \<open>The accumulation loop as a sequence of increments\<close>

lemma exclusive_process_stack:
  "exclusive_counter (process_stack set_iter st stack) =
     foldl counter_incr (exclusive_counter st) (exclusive_events stack)"
  by (simp add: process_stack_def exclusive_events_def)

lemma inclusive_process_stack:
  "inclusive_counter (process_stack set_iter st stack) =
     foldl counter_incr (inclusive_counter st) (inclusive_events set_iter stack)"
  by (simp add: process_stack_def inclusive_events_def)

lemma total_process_stack:
  "total_samples (process_stack set_iter st stack) = total_samples st"
  by (simp add: process_stack_def)

lemma exclusive_foldl_stacks:
  "exclusive_counter (foldl (process_stack set_iter) st ss) =
     foldl counter_incr (exclusive_counter st) (concat (map exclusive_events ss))"
  by (induction ss arbitrary: st) (simp_all add: exclusive_process_stack)

lemma inclusive_foldl_stacks:
  "inclusive_counter (foldl (process_stack set_iter) st ss) =
     foldl counter_incr (inclusive_counter st) (concat (map (inclusive_events set_iter) ss))"
  by (induction ss arbitrary: st) (simp_all add: inclusive_process_stack)

lemma total_foldl_stacks:
  "total_samples (foldl (process_stack set_iter) st ss) = total_samples st"
  by (induction ss arbitrary: st) (simp_all add: total_process_stack)

lemma exclusive_foldl_profiles:
  "exclusive_counter (foldl (process_profile set_iter) st ps) =
     foldl counter_incr (exclusive_counter st) (concat (map exclusive_events (all_samples ps)))"
  by (induction ps arbitrary: st)
     (simp_all add: all_samples_def process_profile_def exclusive_foldl_stacks)

lemma inclusive_foldl_profiles:
  "inclusive_counter (foldl (process_profile set_iter) st ps) =
     foldl counter_incr (inclusive_counter st)
       (concat (map (inclusive_events set_iter) (all_samples ps)))"
  by (induction ps arbitrary: st)
     (simp_all add: all_samples_def process_profile_def inclusive_foldl_stacks)

lemma total_foldl_profiles:
  "total_samples (foldl (process_profile set_iter) st ps) =
     total_samples st + sum_list (map (\<lambda>p. int (length (samples p))) ps)"
  by (induction ps arbitrary: st) (simp_all add: process_profile_def total_foldl_stacks)

lemma exclusive_accumulate:
  "exclusive_counter (accumulate set_iter ps) =
     foldl counter_incr [] (concat (map exclusive_events (all_samples ps)))"
  by (simp add: accumulate_def exclusive_foldl_profiles)

lemma inclusive_accumulate:
  "inclusive_counter (accumulate set_iter ps) =
     foldl counter_incr [] (concat (map (inclusive_events set_iter) (all_samples ps)))"
  by (simp add: accumulate_def inclusive_foldl_profiles)

lemma total_accumulate:
  "total_samples (accumulate set_iter ps) = sum_list (map (\<lambda>p. int (length (samples p))) ps)"
  by (simp add: accumulate_def total_foldl_profiles)

section \<open>Counters\<close>

lemma counter_get_Nil: "counter_get [] k = 0"
  by (simp add: counter_get_def)

lemma counter_get_incr:
  "counter_get (counter_incr c k) j = counter_get c j + (if j = k then 1 else 0)"
  by (simp add: counter_get_def counter_incr_def update_conv')

lemma counter_get_foldl:
  "counter_get (foldl counter_incr c es) k = counter_get c k + int (count_list es k)"
  by (induction es arbitrary: c) (simp_all add: counter_get_incr)

lemma keys_counter_incr: "fst ` set (counter_incr c k) = insert k (fst ` set c)"
  by (simp add: counter_incr_def dom_update)

lemma keys_foldl_incr: "fst ` set (foldl counter_incr c es) = fst ` set c \<union> set es"
  by (induction es arbitrary: c) (auto simp: keys_counter_incr)

lemma distinct_counter_incr: "distinct (map fst c) \<Longrightarrow> distinct (map fst (counter_incr c k))"
  by (simp add: counter_incr_def distinct_update)

lemma distinct_foldl_incr:
  "distinct (map fst c) \<Longrightarrow> distinct (map fst (foldl counter_incr c es))"
  by (induction es arbitrary: c) (simp_all add: distinct_counter_incr)

lemma sum_update_incr:
  "sum_list (map snd (AList.update k (counter_get c k + 1) c)) = sum_list (map snd c) + 1"
  by (induction c) (auto simp: counter_get_def)

lemma sum_counter_incr: "sum_list (map snd (counter_incr c k)) = sum_list (map snd c) + 1"
  by (simp add: counter_incr_def sum_update_incr)

lemma sum_foldl_incr:
  "sum_list (map snd (foldl counter_incr c es)) = sum_list (map snd c) + int (length es)"
  by (induction es arbitrary: c) (simp_all add: sum_counter_incr)

lemma counter_get_key: "distinct (map fst c) \<Longrightarrow> (k, v) \<in> set c \<Longrightarrow> counter_get c k = v"
  by (simp add: counter_get_def)

lemma sum_values_keys:
  assumes "distinct (map fst c)"
  shows "sum_list (map snd c) = (\<Sum>k \<in> fst ` set c. counter_get c k)"
proof -
  have "map snd c = map (counter_get c) (map fst c)"
    using assms by (auto simp: counter_get_key)
  then have "sum_list (map snd c) = sum_list (map (counter_get c) (map fst c))"
    by (rule arg_cong)
  also have "\<dots> = sum (counter_get c) (set (map fst c))"
    using assms by (rule sum_list_distinct_conv_sum_set)
  finally show ?thesis by simp
qed

section \<open>Counts as numbers of samples\<close>

lemma all_samples_without_empty:
  "all_samples (without_empty ps) = filter (\<lambda>stack. stack \<noteq> []) (all_samples ps)"
  by (induction ps) (simp_all add: all_samples_def without_empty_def)

lemma concat_map_filter_empty:
  "(\<And>x. \<not> P x \<Longrightarrow> f x = []) \<Longrightarrow> concat (map f (filter P xs)) = concat (map f xs)"
  by (induction xs) simp_all

lemma count_list_concat:
  "count_list (concat xss) k = sum_list (map (\<lambda>xs. count_list xs k) xss)"
  by (induction xss) simp_all

lemma count_list_distinct: "distinct xs \<Longrightarrow> count_list xs k = (if k \<in> set xs then 1 else 0)"
  by (induction xs) auto

lemma sum_list_indicator:
  "sum_list (map (\<lambda>x. if P x then 1 else 0) xs) = length (filter P xs)"
  by (induction xs) simp_all

lemma count_exclusive_events:
  "count_list (exclusive_events stack) k = (if stack \<noteq> [] \<and> last stack = k then 1 else 0)"
  by (simp add: exclusive_events_def)

lemma count_inclusive_events:
  "set_iter_ok set_iter \<Longrightarrow>
   count_list (inclusive_events set_iter stack) k = (if k \<in> set stack then 1 else 0)"
  by (auto simp: inclusive_events_def set_iter_ok_def count_list_distinct)

lemma exclusive_count_eq:
  "counter_get (exclusive_counter (accumulate set_iter ps)) k =
     int (length (filter (\<lambda>stack. stack \<noteq> [] \<and> last stack = k) (all_samples ps)))"
  by (simp add: exclusive_accumulate counter_get_foldl counter_get_Nil count_list_concat
      comp_def count_exclusive_events sum_list_indicator)

lemma inclusive_count_eq:
  "set_iter_ok set_iter \<Longrightarrow>
   counter_get (inclusive_counter (accumulate set_iter ps)) k =
     int (length (filter (\<lambda>stack. k \<in> set stack) (all_samples ps)))"
  by (simp add: inclusive_accumulate counter_get_foldl counter_get_Nil count_list_concat
      comp_def count_inclusive_events sum_list_indicator)

lemma length_all_samples:
  "int (length (all_samples ps)) = sum_list (map (\<lambda>p. int (length (samples p))) ps)"
  by (induction ps) (simp_all add: all_samples_def)

lemma length_concat_exclusive_events:
  "length (concat (map exclusive_events ss)) = length (filter (\<lambda>stack. stack \<noteq> []) ss)"
  by (induction ss) (simp_all add: exclusive_events_def)

lemma length_filter_empty:
  "int (length (filter (\<lambda>stack. stack \<noteq> []) ss)) =
     int (length ss) - int (length (filter (\<lambda>stack. stack = []) ss))"
  by (induction ss) simp_all

text \<open>
  C1. Under every iteration order a Python set can have, the inclusive count of a frame
  index after the accumulation loop is the number of samples whose stack contains that
  index; a sample counts once however often the index occurs in its stack.
\<close>

theorem inclusive_counts_samples_containing:
  "set_iter_ok set_iter \<Longrightarrow>
   counter_get (inclusive_counter (accumulate set_iter (profiles data))) k =
     int (length (filter (\<lambda>stack. k \<in> set stack) (all_samples (profiles data))))"
  by (rule inclusive_count_eq)

theorem inclusive_counts_samples_containing_witness:
  "set_iter_ok remdups \<and>
   counter_get (inclusive_counter (accumulate remdups
     (profiles \<lparr>shared = \<lparr>frames = []\<rparr>, profiles = [\<lparr>samples = [[2, 2, 3], [3], []]\<rparr>]\<rparr>))) 2 = 1"
proof -
  have ok: "set_iter_ok remdups"
    by (simp add: set_iter_ok_def)
  show ?thesis
    using ok inclusive_counts_samples_containing [OF ok,
        of "\<lparr>shared = \<lparr>frames = []\<rparr>, profiles = [\<lparr>samples = [[2, 2, 3], [3], []]\<rparr>]\<rparr>" 2]
    by (simp add: all_samples_def)
qed

text \<open>
  C2. A non-empty stack adds one to the exclusive count of its last element and to no
  other; so the exclusive count of an index is the number of samples that end in it, and
  the exclusive counts of all keys of the counter add up to the total number of samples
  less the empty ones.
\<close>

theorem exclusive_counts_leaf:
  "counter_get (exclusive_counter (process_stack set_iter st stack)) k =
     counter_get (exclusive_counter st) k + (if stack \<noteq> [] \<and> last stack = k then 1 else 0)
   \<and> counter_get (exclusive_counter (accumulate set_iter (profiles data))) k =
       int (length (filter (\<lambda>stack. stack \<noteq> [] \<and> last stack = k) (all_samples (profiles data))))
   \<and> (\<Sum>i \<in> fst ` set (exclusive_counter (accumulate set_iter (profiles data))).
         counter_get (exclusive_counter (accumulate set_iter (profiles data))) i) =
       total_samples (accumulate set_iter (profiles data))
         - int (length (filter (\<lambda>stack. stack = []) (all_samples (profiles data))))"
proof -
  let ?ps = "profiles data"
  let ?exc = "exclusive_counter (accumulate set_iter ?ps)"
  have step: "counter_get (exclusive_counter (process_stack set_iter st stack)) k =
     counter_get (exclusive_counter st) k + (if stack \<noteq> [] \<and> last stack = k then 1 else 0)"
    by (simp add: process_stack_def counter_get_incr)
  have "distinct (map fst ?exc)"
    by (simp add: exclusive_accumulate distinct_foldl_incr)
  then have "(\<Sum>i \<in> fst ` set ?exc. counter_get ?exc i) = sum_list (map snd ?exc)"
    by (simp add: sum_values_keys)
  also have "\<dots> = int (length (filter (\<lambda>stack. stack \<noteq> []) (all_samples ?ps)))"
    by (simp add: exclusive_accumulate sum_foldl_incr length_concat_exclusive_events)
  also have "\<dots> = total_samples (accumulate set_iter ?ps)
      - int (length (filter (\<lambda>stack. stack = []) (all_samples ?ps)))"
    by (simp add: length_filter_empty total_accumulate length_all_samples)
  finally show ?thesis
    using step exclusive_count_eq by blast
qed

text \<open>
  C3. The total is the sum of the lengths of the sample lists, empty stacks included; an
  empty stack leaves the state as it is, and removing every empty stack from the input
  changes neither counter.
\<close>

theorem total_counts_every_sample:
  "total_samples (accumulate set_iter (profiles data)) =
     sum_list (map (\<lambda>p. int (length (samples p))) (profiles data))
   \<and> process_stack set_iter st [] = st
   \<and> exclusive_counter (accumulate set_iter (profiles data)) =
       exclusive_counter (accumulate set_iter (without_empty (profiles data)))
   \<and> inclusive_counter (accumulate set_iter (profiles data)) =
       inclusive_counter (accumulate set_iter (without_empty (profiles data)))"
proof -
  have "concat (map exclusive_events (filter (\<lambda>stack. stack \<noteq> []) ss)) =
        concat (map exclusive_events ss)" for ss
    by (rule concat_map_filter_empty) (simp add: exclusive_events_def)
  moreover have "concat (map (inclusive_events set_iter) (filter (\<lambda>stack. stack \<noteq> []) ss)) =
        concat (map (inclusive_events set_iter) ss)" for ss
    by (rule concat_map_filter_empty) (simp add: inclusive_events_def)
  ultimately show ?thesis
    by (simp add: total_accumulate exclusive_accumulate inclusive_accumulate
        all_samples_without_empty process_stack_def)
qed

text \<open>
  C9. After the accumulation loop no frame index has a larger exclusive than inclusive
  count.
\<close>

theorem exclusive_le_inclusive:
  assumes "set_iter_ok set_iter"
  shows "counter_get (exclusive_counter (accumulate set_iter (profiles data))) k
         \<le> counter_get (inclusive_counter (accumulate set_iter (profiles data))) k"
proof -
  have "length (filter (\<lambda>stack. stack \<noteq> [] \<and> last stack = k) ss)
        \<le> length (filter (\<lambda>stack. k \<in> set stack) ss)" for ss :: "int list list"
    by (induction ss) auto
  then show ?thesis
    using assms by (simp add: exclusive_count_eq inclusive_count_eq)
qed

theorem exclusive_le_inclusive_witness:
  "set_iter_ok remdups \<and>
   counter_get (exclusive_counter (accumulate remdups
     (profiles \<lparr>shared = \<lparr>frames = []\<rparr>, profiles = [\<lparr>samples = [[0, 1], [1]]\<rparr>]\<rparr>))) 1
   \<le> counter_get (inclusive_counter (accumulate remdups
     (profiles \<lparr>shared = \<lparr>frames = []\<rparr>, profiles = [\<lparr>samples = [[0, 1], [1]]\<rparr>]\<rparr>))) 1"
proof -
  have ok: "set_iter_ok remdups"
    by (simp add: set_iter_ok_def)
  show ?thesis
    using ok exclusive_le_inclusive [OF ok,
        of "\<lparr>shared = \<lparr>frames = []\<rparr>, profiles = [\<lparr>samples = [[0, 1], [1]]\<rparr>]\<rparr>" 1]
    by simp
qed

section \<open>The ranked listings\<close>

lemma sorted_wrt_insort_key_lex:
  fixes f :: "'a \<Rightarrow> 'b::linorder" and pos :: "'a \<Rightarrow> nat"
  assumes "sorted_wrt (\<lambda>a b. f a < f b \<or> (f a = f b \<and> pos a < pos b)) ys"
    and "\<forall>y \<in> set ys. pos x < pos y"
  shows "sorted_wrt (\<lambda>a b. f a < f b \<or> (f a = f b \<and> pos a < pos b)) (insort_key f x ys)"
  using assms
proof (induction ys)
  case Nil
  then show ?case by simp
next
  case (Cons y ys)
  show ?case
  proof (cases "f x \<le> f y")
    case True
    have "f y \<le> f z" if "z \<in> set ys" for z
      using Cons.prems(1) that by auto
    with True have "f x \<le> f z" if "z \<in> set (y # ys)" for z
      using that by (auto intro: order_trans)
    with Cons.prems True show ?thesis
      by (auto simp: le_less)
  next
    case False
    with Cons show ?thesis
      by (auto simp: set_insort_key)
  qed
qed

lemma sorted_wrt_sort_key_lex:
  fixes f :: "'a \<Rightarrow> 'b::linorder" and pos :: "'a \<Rightarrow> nat"
  assumes "sorted_wrt (\<lambda>a b. pos a < pos b) xs"
  shows "sorted_wrt (\<lambda>a b. f a < f b \<or> (f a = f b \<and> pos a < pos b)) (sort_key f xs)"
  using assms
proof (induction xs)
  case Nil
  then show ?case by simp
next
  case (Cons x xs)
  then show ?case
    by (simp add: sorted_wrt_insort_key_lex)
qed

lemma first_index_append_old:
  "k \<in> set evs \<Longrightarrow> first_index (evs @ [e]) k = first_index evs k"
  by (simp add: first_index_def takeWhile_append1 split: if_splits)

lemma first_index_less: "k \<in> set evs \<Longrightarrow> first_index evs k < length evs"
  unfolding first_index_def by (induction evs) auto

lemma first_index_append_new:
  "e \<notin> set evs \<Longrightarrow> first_index (evs @ [e]) e = length evs"
proof -
  assume "e \<notin> set evs"
  then have "takeWhile (\<lambda>x. x \<noteq> e) (evs @ [e]) = evs @ takeWhile (\<lambda>x. x \<noteq> e) [e]"
    by (intro takeWhile_append2) auto
  then show ?thesis
    by (simp add: first_index_def)
qed

lemma keys_counter_incr_list:
  "map fst (counter_incr c k) = (if k \<in> set (map fst c) then map fst c else map fst c @ [k])"
  by (simp add: counter_incr_def update_keys)

lemma keys_in_first_increment_order:
  "set (map fst (foldl counter_incr [] evs)) = set evs \<and>
   sorted_wrt (\<lambda>j k. first_index evs j < first_index evs k) (map fst (foldl counter_incr [] evs))"
proof (induction evs rule: rev_induct)
  case Nil
  then show ?case by simp
next
  case (snoc e evs)
  let ?c = "foldl counter_incr [] evs"
  from snoc have keys: "set (map fst ?c) = set evs"
    and ord: "sorted_wrt (\<lambda>j k. first_index evs j < first_index evs k) (map fst ?c)"
    by simp_all
  have ord': "sorted_wrt (\<lambda>j k. first_index (evs @ [e]) j < first_index (evs @ [e]) k) (map fst ?c)"
    using ord
  proof (rule sorted_wrt_mono_rel [rotated])
    fix j k
    assume "j \<in> set (map fst ?c)" "k \<in> set (map fst ?c)" "first_index evs j < first_index evs k"
    then show "first_index (evs @ [e]) j < first_index (evs @ [e]) k"
      using keys by (simp add: first_index_append_old)
  qed
  show ?case
  proof (cases "e \<in> set evs")
    case True
    with keys ord' show ?thesis
      by (auto simp: keys_counter_incr_list)
  next
    case False
    have "first_index (evs @ [e]) j < first_index (evs @ [e]) e" if "j \<in> set evs" for j
      using that False by (simp add: first_index_append_old first_index_append_new first_index_less)
    with False keys ord' show ?thesis
      by (auto simp: keys_counter_incr_list sorted_wrt_append)
  qed
qed

lemma most_common_ranked:
  "sorted_wrt (ranks_before evs) (most_common n (foldl counter_incr [] evs))"
proof -
  let ?c = "foldl counter_incr [] evs"
  have "sorted_wrt (\<lambda>a b. first_index evs (fst a) < first_index evs (fst b)) ?c"
    using keys_in_first_increment_order [of evs] by (simp add: sorted_wrt_map)
  then have "sorted_wrt (\<lambda>a b. (case a of (k, v) \<Rightarrow> - v) < (case b of (k, v) \<Rightarrow> - v)
        \<or> ((case a of (k, v) \<Rightarrow> - v) = (case b of (k, v) \<Rightarrow> - v)
            \<and> first_index evs (fst a) < first_index evs (fst b)))
      (sort_key (\<lambda>(k, v). - v) ?c)"
    by (rule sorted_wrt_sort_key_lex)
  then have "sorted_wrt (ranks_before evs) (sort_key (\<lambda>(k, v). - v) ?c)"
    by (rule sorted_wrt_mono_rel [rotated]) (auto simp: ranks_before_def split: prod.splits)
  then show ?thesis
    by (simp add: most_common_def)
qed

lemma sorted_wrt_asym_unique:
  assumes asym: "\<And>a b. R a b \<Longrightarrow> \<not> R b a"
  shows "sorted_wrt R xs \<Longrightarrow> sorted_wrt R ys \<Longrightarrow> set xs = set ys \<Longrightarrow> xs = ys"
proof (induction xs arbitrary: ys)
  case Nil
  then show ?case by simp
next
  case (Cons x xs)
  from Cons.prems(3) have "ys \<noteq> []" by auto
  then obtain y ys' where ys: "ys = y # ys'" by (cases ys) auto
  have x_new: "x \<notin> set xs"
    using Cons.prems(1) asym by auto
  have y_new: "y \<notin> set ys'"
    using Cons.prems(2) ys asym by auto
  have "x = y"
  proof (rule ccontr)
    assume neq: "x \<noteq> y"
    have "x \<in> set (y # ys')"
      using Cons.prems(3) ys by auto
    with neq have "x \<in> set ys'" by simp
    then have "R y x" using Cons.prems(2) ys by simp
    have "y \<in> set (x # xs)"
      using Cons.prems(3) ys by auto
    with neq have "y \<in> set xs" by auto
    then have "R x y" using Cons.prems(1) by simp
    with \<open>R y x\<close> asym show False by blast
  qed
  moreover have "set xs = set ys'"
    using Cons.prems(3) ys \<open>x = y\<close> x_new y_new by auto
  then have "xs = ys'"
    using Cons.prems ys by (intro Cons.IH) simp_all
  ultimately show ?case using ys by simp
qed

lemma ranks_before_asym: "ranks_before evs a b \<Longrightarrow> \<not> ranks_before evs b a"
  by (auto simp: ranks_before_def)

lemma ranking_unique: "is_ranking evs c r \<Longrightarrow> is_ranking evs c r' \<Longrightarrow> r = r'"
  unfolding is_ranking_def
  using sorted_wrt_asym_unique [of "ranks_before evs" r r'] ranks_before_asym by auto

lemma sort_is_ranking:
  "is_ranking evs (foldl counter_incr [] evs) (sort_key (\<lambda>(k, v). - v) (foldl counter_incr [] evs))"
proof -
  have "sorted_wrt (ranks_before evs) (most_common (length (foldl counter_incr [] evs)) (foldl counter_incr [] evs))"
    by (rule most_common_ranked)
  moreover have "distinct (map fst (foldl counter_incr [] evs))"
    by (simp add: distinct_foldl_incr)
  then have "distinct (foldl counter_incr [] evs)"
    by (simp add: distinct_map)
  ultimately show ?thesis
    by (simp add: is_ranking_def most_common_def)
qed

lemma most_common_prefix_of_ranking:
  assumes "is_ranking evs (foldl counter_incr [] evs) r"
  shows "most_common n (foldl counter_incr [] evs) = take n r"
proof -
  have "r = sort_key (\<lambda>(k, v). - v) (foldl counter_incr [] evs)"
    using assms sort_is_ranking by (rule ranking_unique)
  then show ?thesis by (simp add: most_common_def)
qed

text \<open>
  C5. Both top-20 listings are ordered by descending count, and of two entries with the
  same count the one whose frame was incremented first in its counter comes first. The
  increments of the exclusive counter are the leaves of the non-empty stacks in loop
  order; those of the inclusive counter are the elements of each non-empty stack in the
  order the set iteration yields them. Each counter has a ranking, all its items in that
  order, and the listing is the first 20 entries of any ranking of the counter; so the
  listing is determined by the counter and the order of first increments, also where
  equal counts meet the cut at 20.
\<close>

theorem top_twenty_ranked:
  "sorted_wrt (ranks_before (concat (map exclusive_events (all_samples (profiles data)))))
     (most_common 20 (exclusive_counter (accumulate set_iter (profiles data))))
   \<and> sorted_wrt (ranks_before (concat (map (inclusive_events set_iter) (all_samples (profiles data)))))
     (most_common 20 (inclusive_counter (accumulate set_iter (profiles data))))
   \<and> (\<exists>r. is_ranking (concat (map exclusive_events (all_samples (profiles data))))
              (exclusive_counter (accumulate set_iter (profiles data))) r)
   \<and> (\<forall>r. is_ranking (concat (map exclusive_events (all_samples (profiles data))))
              (exclusive_counter (accumulate set_iter (profiles data))) r
        \<longrightarrow> most_common 20 (exclusive_counter (accumulate set_iter (profiles data))) = take 20 r)
   \<and> (\<exists>r. is_ranking (concat (map (inclusive_events set_iter) (all_samples (profiles data))))
              (inclusive_counter (accumulate set_iter (profiles data))) r)
   \<and> (\<forall>r. is_ranking (concat (map (inclusive_events set_iter) (all_samples (profiles data))))
              (inclusive_counter (accumulate set_iter (profiles data))) r
        \<longrightarrow> most_common 20 (inclusive_counter (accumulate set_iter (profiles data))) = take 20 r)"
  using sort_is_ranking most_common_prefix_of_ranking
  by (simp add: exclusive_accumulate inclusive_accumulate most_common_ranked) blast

theorem top_twenty_ranked_witness:
  "is_ranking (concat (map exclusive_events (all_samples [\<lparr>samples = [[5, 3], [3, 7], [7], [5]]\<rparr>])))
     (exclusive_counter (accumulate remdups [\<lparr>samples = [[5, 3], [3, 7], [7], [5]]\<rparr>]))
     [(7, 2), (3, 1), (5, 1)]
   \<and> most_common 20 (exclusive_counter (accumulate remdups [\<lparr>samples = [[5, 3], [3, 7], [7], [5]]\<rparr>]))
       = take 20 [(7, 2), (3, 1), (5, 1)]
   \<and> is_ranking (concat (map (inclusive_events remdups) (all_samples [\<lparr>samples = [[5, 3], [3, 7], [7], [5]]\<rparr>])))
     (inclusive_counter (accumulate remdups [\<lparr>samples = [[5, 3], [3, 7], [7], [5]]\<rparr>]))
     [(5, 2), (3, 2), (7, 2)]
   \<and> most_common 20 (inclusive_counter (accumulate remdups [\<lparr>samples = [[5, 3], [3, 7], [7], [5]]\<rparr>]))
       = take 20 [(5, 2), (3, 2), (7, 2)]"
proof -
  let ?ps = "[\<lparr>samples = [[5, 3], [3, 7], [7], [5 :: int]]\<rparr>]"
  have ex: "is_ranking (concat (map exclusive_events (all_samples ?ps)))
     (exclusive_counter (accumulate remdups ?ps)) [(7, 2), (3, 1), (5, 1)]"
    by code_simp
  have inc: "is_ranking (concat (map (inclusive_events remdups) (all_samples ?ps)))
     (inclusive_counter (accumulate remdups ?ps)) [(5, 2), (3, 2), (7, 2)]"
    by code_simp
  show ?thesis
    using ex inc top_twenty_ranked [of "\<lparr>shared = \<lparr>frames = []\<rparr>, profiles = ?ps\<rparr>" remdups]
    by simp
qed

section \<open>The target checks and the divisions\<close>

lemma enumerate_as_map: "enumerate 0 xs = map (\<lambda>i. (i, xs ! i)) [0..<length xs]"
  by (rule nth_equalityI) (simp_all add: nth_enumerate_eq)

lemma sum_over_matches:
  "sum_list (map (\<lambda>(idx, name). counter_get c (int idx)) (matches fnames t)) =
     summed c (matching_frames fnames t)"
proof -
  let ?Q = "\<lambda>i. sublist (lower t) (lower (fnames ! i))"
  have "matches fnames t = map (\<lambda>i. (i, fnames ! i)) (filter ?Q [0..<length fnames])"
    by (simp add: matches_def enumerate_as_map filter_map comp_def)
  then have "sum_list (map (\<lambda>(idx, name). counter_get c (int idx)) (matches fnames t)) =
      sum_list (map (\<lambda>i. counter_get c (int i)) (filter ?Q [0..<length fnames]))"
    by (simp add: comp_def)
  also have "\<dots> = sum (\<lambda>i. counter_get c (int i)) (set (filter ?Q [0..<length fnames]))"
    by (rule sum_list_distinct_conv_sum_set) simp
  also have "set (filter ?Q [0..<length fnames]) = matching_frames fnames t"
    by (auto simp: matching_frames_def)
  finally show ?thesis
    by (simp add: summed_def)
qed

lemma counter_get_nonneg: "0 \<le> counter_get (foldl counter_incr [] evs) k"
  by (simp add: counter_get_foldl counter_get_Nil)

lemma summed_nonneg: "0 \<le> summed (foldl counter_incr [] evs) F"
  unfolding summed_def by (rule sum_nonneg) (rule counter_get_nonneg)

lemma summed_pos_nonempty: "summed c F \<noteq> 0 \<Longrightarrow> c \<noteq> []"
  by (auto simp: summed_def counter_get_def)

lemma foldl_incr_Nil_iff: "foldl counter_incr [] evs = [] \<longleftrightarrow> evs = []"
proof -
  have "fst ` set (foldl counter_incr [] evs) = set evs"
    by (simp add: keys_foldl_incr)
  then show ?thesis
    by (metis image_is_empty set_empty foldl_Nil)
qed

lemma exclusive_nonempty_total:
  "exclusive_counter (accumulate set_iter ps) \<noteq> [] \<Longrightarrow> 0 < total_samples (accumulate set_iter ps)"
proof -
  assume "exclusive_counter (accumulate set_iter ps) \<noteq> []"
  then have "all_samples ps \<noteq> []"
    by (auto simp: exclusive_accumulate foldl_incr_Nil_iff)
  then have "0 < int (length (all_samples ps))" by simp
  then show ?thesis
    by (simp add: total_accumulate length_all_samples)
qed

lemma inclusive_nonempty_total:
  "inclusive_counter (accumulate set_iter ps) \<noteq> [] \<Longrightarrow> 0 < total_samples (accumulate set_iter ps)"
proof -
  assume "inclusive_counter (accumulate set_iter ps) \<noteq> []"
  then have "all_samples ps \<noteq> []"
    by (auto simp: inclusive_accumulate foldl_incr_Nil_iff)
  then have "0 < int (length (all_samples ps))" by simp
  then show ?thesis
    by (simp add: total_accumulate length_all_samples)
qed

lemma check_target_expected:
  "check_target fnames (accumulate set_iter ps) t = Inr (expected_line fnames (accumulate set_iter ps) t)"
proof -
  let ?st = "accumulate set_iter ps"
  let ?i = "summed (inclusive_counter ?st) (matching_frames fnames t)"
  have nonneg: "0 \<le> ?i"
    by (simp add: inclusive_accumulate summed_nonneg)
  show ?thesis
  proof (cases "?i = 0")
    case True
    then show ?thesis
      by (simp add: check_target_def expected_line_def sum_over_matches Let_def)
  next
    case False
    then have "inclusive_counter ?st \<noteq> []"
      by (rule summed_pos_nonempty)
    then have "total_samples ?st \<noteq> 0"
      using inclusive_nonempty_total [of set_iter ps] by simp
    with False nonneg show ?thesis
      by (simp add: check_target_def expected_line_def sum_over_matches int_truediv_def ebind_def Let_def)
  qed
qed

lemma emap_total: "(\<And>x. f x = Inr (g x)) \<Longrightarrow> emap f xs = Inr (map g xs)"
  by (induction xs) (simp_all add: ebind_def)

text \<open>
  C6. For every target string, those of the fixed list among them, the loop body sums both
  counters over exactly the frames of the frame table whose lowered name contains the
  lowered target as a contiguous substring, and prints the line exactly when the
  inclusive sum is not zero; it never raises. Hence the report of \<open>analyze_profile\<close>,
  whenever the two listings before it are printed, carries exactly these lines for the
  fixed targets, in their order.
\<close>

theorem target_checks:
  "check_target (frame_names data) (accumulate set_iter (profiles data)) t =
     Inr (expected_line (frame_names data) (accumulate set_iter (profiles data)) t)
   \<and> analyze_profile set_iter data =
       ebind (emap (print_frame (frame_names data) (total_samples (accumulate set_iter (profiles data))))
                (most_common 20 (exclusive_counter (accumulate set_iter (profiles data))))) (\<lambda>exl.
       ebind (emap (print_frame (frame_names data) (total_samples (accumulate set_iter (profiles data))))
                (most_common 20 (inclusive_counter (accumulate set_iter (profiles data))))) (\<lambda>inl.
       Inr \<lparr>report_total = total_samples (accumulate set_iter (profiles data)),
            top_exclusive = exl, top_inclusive = inl,
            specific_checks = List.map_filter id
              (map (expected_line (frame_names data) (accumulate set_iter (profiles data))) targets)\<rparr>))"
proof -
  have "emap (check_target (frame_names data) (accumulate set_iter (profiles data))) targets =
     Inr (map (expected_line (frame_names data) (accumulate set_iter (profiles data))) targets)"
    by (simp add: check_target_expected emap_total)
  then show ?thesis
    by (simp add: check_target_expected analyze_profile_def Let_def ebind_def split: sum.splits)
qed

lemma ebind_not_error:
  "m \<noteq> Inl e \<Longrightarrow> (\<And>x. m = Inr x \<Longrightarrow> f x \<noteq> Inl e) \<Longrightarrow> ebind m f \<noteq> Inl e"
  by (cases m) (simp_all add: ebind_def)

lemma emap_not_error: "(\<And>x. x \<in> set xs \<Longrightarrow> f x \<noteq> Inl e) \<Longrightarrow> emap f xs \<noteq> Inl e"
  by (induction xs) (auto simp: ebind_def split: sum.splits)

lemma print_frame_no_zero_division:
  "n \<noteq> 0 \<Longrightarrow> print_frame fnames n fc \<noteq> Inl ZeroDivisionError"
  by (cases fc) (auto simp: print_frame_def int_truediv_def py_getitem_def ebind_def)

lemma listing_no_zero_division:
  "(c \<noteq> [] \<Longrightarrow> n \<noteq> 0) \<Longrightarrow> emap (print_frame fnames n) (most_common k c) \<noteq> Inl ZeroDivisionError"
proof (cases "c = []")
  case True
  then show ?thesis by (simp add: most_common_def)
next
  case False
  assume "c \<noteq> [] \<Longrightarrow> n \<noteq> 0"
  with False have "n \<noteq> 0" by simp
  then show ?thesis
    by (intro emap_not_error print_frame_no_zero_division)
qed

text \<open>
  C10. \<open>analyze_profile\<close> never raises ZeroDivisionError: a listing has a line only if
  its counter has a key, a target line is printed only if its inclusive sum is positive,
  and either requires a sample, so that every division that is evaluated has a total of
  at least 1.
\<close>

theorem no_division_by_zero:
  "analyze_profile set_iter data \<noteq> Inl ZeroDivisionError"
proof -
  let ?st = "accumulate set_iter (profiles data)"
  have ex: "emap (print_frame (frame_names data) (total_samples ?st))
              (most_common 20 (exclusive_counter ?st)) \<noteq> Inl ZeroDivisionError"
    using exclusive_nonempty_total [of set_iter "profiles data"]
    by (intro listing_no_zero_division) simp
  have inc: "emap (print_frame (frame_names data) (total_samples ?st))
              (most_common 20 (inclusive_counter ?st)) \<noteq> Inl ZeroDivisionError"
    using inclusive_nonempty_total [of set_iter "profiles data"]
    by (intro listing_no_zero_division) simp
  have tg: "emap (check_target (frame_names data) ?st) targets \<noteq> Inl ZeroDivisionError"
    by (simp add: check_target_expected emap_total)
  show ?thesis
    unfolding analyze_profile_def Let_def
    by (intro ebind_not_error ex inc tg) simp
qed

section \<open>The table search\<close>

lemma re_lit_iff: "(re_lit p k s \<noteq> None) = (\<exists>r. s = p @ r \<and> k r \<noteq> None)"
  by (auto simp: re_lit_def prefix_def)

lemma re_lazy_any_iff: "(re_lazy_any k s \<noteq> None) = (\<exists>a r. s = a @ r \<and> k r \<noteq> None)"
proof (induction s)
  case Nil
  then show ?case by simp
next
  case (Cons c s)
  show ?case
  proof (cases "k (c # s)")
    case None
    have "(\<exists>a r. c # s = a @ r \<and> k r \<noteq> None) = (\<exists>a r. s = a @ r \<and> k r \<noteq> None)"
      using None by (auto simp: Cons_eq_append_conv)
    with None Cons show ?thesis by simp
  next
    case (Some n)
    then have "c # s = [] @ (c # s) \<and> k (c # s) \<noteq> None" by simp
    then have "\<exists>a r. c # s = a @ r \<and> k r \<noteq> None" by blast
    with Some show ?thesis by simp
  qed
qed

lemma re_search_iff: "(re_search m s \<noteq> None) = (\<exists>a r. s = a @ r \<and> m r \<noteq> None)"
proof (induction s)
  case Nil
  then show ?case by simp
next
  case (Cons c s)
  show ?case
  proof (cases "m (c # s)")
    case None
    have "(\<exists>a r. c # s = a @ r \<and> m r \<noteq> None) = (\<exists>a r. s = a @ r \<and> m r \<noteq> None)"
      using None by (auto simp: Cons_eq_append_conv)
    with None Cons show ?thesis by simp
  next
    case (Some n)
    then have "c # s = [] @ (c # s) \<and> m (c # s) \<noteq> None" by simp
    then have "\<exists>a r. c # s = a @ r \<and> m r \<noteq> None" by blast
    with Some show ?thesis by simp
  qed
qed

lemma table_pattern_iff:
  "(table_pattern s \<noteq> None) =
     (\<exists>a b post. s = ''| Runs'' @ a @ ''\<newline>|'' @ b @ ''\<newline>\<newline>'' @ post)"
  unfolding table_pattern_def re_lit_iff re_lazy_any_iff
  by (auto simp: re_end_def) blast+

lemma search_finds_table: "(re_search table_pattern content \<noteq> None) = has_table content"
  unfolding re_search_iff table_pattern_iff has_table_def by blast

section \<open>Rows and percentages\<close>

lemma parse_row_in_range:
  "10 \<le> length parts \<Longrightarrow> parse_row py_int py_float parts \<noteq> Inl IndexError"
  by (auto simp: parse_row_def py_getitem_def convert_def ebind_def split: option.splits)

text \<open>
  C4. A line of exactly nine fields passes the test \<open>len(parts) >= 9\<close> and then
  raises IndexError at \<open>parts[9]\<close>: the guard is one short of the highest index read.
  The text below is a table whose only data row has the nine fields
  \<open>'', 'a', '100', '10', 'e', 'f', 'g', 'h', ''\<close>.
\<close>

theorem nine_fields_raise:
  "parse_times (\<lambda>s. if s = ''100'' then Some 100 else if s = ''10'' then Some 10 else None)
     (\<lambda>s. None :: real option)
     ''| Runs |\<newline>|---|\<newline>|a|100|10|e|f|g|h|\<newline>\<newline>'' = Inl IndexError"
  by code_simp

lemma float_okD: "float_ok ops \<Longrightarrow> py_gt0 ops a \<Longrightarrow> \<not> fl_is_zero ops (to_float ops a)"
  by (simp add: float_ok_def)

lemma py_truediv_quot:
  assumes "float_ok ops" "py_gt0 ops b"
  shows "py_truediv ops a b = Inr (py_quot ops a b)"
proof -
  have nz: "\<not> fl_is_zero ops (to_float ops b)"
    using assms by (rule float_okD)
  show ?thesis
  proof (cases a)
    case (PyInt i)
    show ?thesis
    proof (cases b)
      case (PyInt j)
      with assms(2) \<open>a = PyInt i\<close> show ?thesis by simp
    next
      case (PyFloat y)
      with nz \<open>a = PyInt i\<close> show ?thesis by simp
    qed
  next
    case (PyFloat x)
    with nz show ?thesis by (cases b) simp_all
  qed
qed

lemma pct_of_guarded:
  "float_ok ops \<Longrightarrow> pct_of ops (py_sub ops new old) old = Inr (guarded_pct ops old new)"
  by (simp add: pct_of_def guarded_pct_def py_truediv_quot ebind_def)

lemma guarded_pct_floats:
  "guarded_pct ops (PyFloat old_t) (PyFloat new_t) =
     (if fl_pos ops old_t
      then PyFloat (fl_mul ops (fl_div ops (fl_sub ops new_t old_t) old_t) (fl_of_int ops 100))
      else PyInt 0)"
  by (simp add: guarded_pct_def)

lemma pct_of_not_positive: "\<not> py_gt0 ops old \<Longrightarrow> pct_of ops change old = Inr (PyInt 0)"
  by (simp add: pct_of_def)

lemma compare_rows_expected:
  assumes "float_ok ops"
  shows "compare_rows ops ps (total_old, total_new, out) =
     Inr (foldl (py_add ops) total_old (map (\<lambda>((_, _, old_t), _). PyFloat old_t) ps),
          foldl (py_add ops) total_new (map (\<lambda>(_, (_, _, new_t)). PyFloat new_t) ps),
          out @ map (expected_row ops) ps)"
proof (induction ps arbitrary: total_old total_new out)
  case Nil
  then show ?case by simp
next
  case (Cons p ps)
  obtain pop reg old_t pop' reg' new_t where p: "p = ((pop, reg, old_t), (pop', reg', new_t))"
    by (metis prod_cases3 surj_pair)
  have "pct_of ops (py_sub ops (PyFloat new_t) (PyFloat old_t)) (PyFloat old_t) =
      Inr (guarded_pct ops (PyFloat old_t) (PyFloat new_t))"
    using assms by (rule pct_of_guarded)
  then show ?case
    by (simp add: p Cons.IH ebind_def expected_row_def)
qed

lemma compare_case_expected:
  assumes "float_ok ops"
  shows "compare_case ops name old_times new_times =
     Inr \<lparr>case_name = name, case_rows = map (expected_row ops) (zip old_times new_times),
          case_total_old = paired_old ops old_times new_times,
          case_total_new = paired_new ops old_times new_times,
          case_total_change =
            py_sub ops (paired_new ops old_times new_times) (paired_old ops old_times new_times),
          case_total_pct = guarded_pct ops (paired_old ops old_times new_times)
                                           (paired_new ops old_times new_times)\<rparr>"
  using assms
  by (simp add: compare_case_def compare_rows_expected ebind_def pct_of_guarded
      paired_old_def paired_new_def)

lemma compare_case_no_old: "compare_case ops name [] new_times = Inr (empty_case name)"
  by (simp add: compare_case_def ebind_def pct_of_def empty_case_def)

lemma compare_case_no_new: "compare_case ops name old_times [] = Inr (empty_case name)"
  by (simp add: compare_case_def ebind_def pct_of_def empty_case_def)

lemma float_ok_rounded: "rnd 0 = 0 \<Longrightarrow> float_ok (rounded_ops rnd)"
  unfolding float_ok_def
proof (intro allI impI)
  fix a :: "real py_num"
  assume "rnd 0 = 0" "py_gt0 (rounded_ops rnd) a"
  then show "\<not> fl_is_zero (rounded_ops rnd) (to_float (rounded_ops rnd) a)"
    by (cases a) (simp_all add: rounded_ops_def)
qed

lemma float_ok_exact: "float_ok exact_ops"
  by (simp add: exact_ops_def float_ok_rounded)

text \<open>
  C7. A text without a match of the table pattern parses to the empty list of rows,
  without an error, whatever the number parsers do; and a case one of whose two lists
  of rows is empty is reported with no rows and all totals the int 0 they start as,
  whatever the float operations are.
\<close>

theorem no_table_no_rows:
  assumes "\<not> has_table content"
  shows "parse_times py_int py_float content = Inr []
    \<and> compare_case ops name [] new_times = Inr (empty_case name)
    \<and> compare_case ops name old_times [] = Inr (empty_case name)"
proof -
  from assms have "re_search table_pattern content = None"
    using search_finds_table [of content] by simp
  then have "parse_times py_int py_float content = Inr []"
    by (simp add: parse_times_def)
  then show ?thesis
    by (simp add: compare_case_no_old compare_case_no_new)
qed

theorem no_table_no_rows_witness:
  "\<not> has_table ''# Results\<newline>\<newline>no table here\<newline>'' \<and>
   parse_times (\<lambda>s. None) (\<lambda>s. None :: real option) ''# Results\<newline>\<newline>no table here\<newline>'' = Inr [] \<and>
   compare_case exact_ops ''Ackley'' [] [(100, 5, 1)] = Inr (empty_case ''Ackley'') \<and>
   compare_case exact_ops ''Ackley'' [(100, 5, 1)] [] = Inr (empty_case ''Ackley'')"
proof -
  have "re_search table_pattern ''# Results\<newline>\<newline>no table here\<newline>'' = None"
    by code_simp
  then have none: "\<not> has_table ''# Results\<newline>\<newline>no table here\<newline>''"
    using search_finds_table [of "''# Results\<newline>\<newline>no table here\<newline>''"] by simp
  show ?thesis
    using none no_table_no_rows [OF none, of "\<lambda>s. None" "\<lambda>s. None :: real option" exact_ops
        "''Ackley''" "[(100, 5, 1)]" "[(100, 5, 1)]"]
    by simp
qed

text \<open>
  C8. Computing a percentage never raises, and its value is the int 0 when the old time
  does not compare greater than zero, an old time of zero among them, and otherwise the
  float the code computes: the difference, divided by the old time, times 100, each
  step with the float operation. The totals of a case, added in the order of the rows,
  and the grand totals get their percentage by the same guarded expression. In exact
  arithmetic that value is \<open>100 * (new - old) / old\<close>; under a rounding of relative
  error at most \<open>eps\<close> per operation it differs from it by a relative error of at most
  \<open>(1 + eps) ^ 3 - 1\<close> (lemma \<open>pct_rounding_error\<close> below).
\<close>

theorem guarded_percentages:
  assumes "float_ok ops"
  shows "pct_of ops (py_sub ops (PyFloat new_t) (PyFloat old_t)) (PyFloat old_t) =
       Inr (if fl_pos ops old_t
            then PyFloat (fl_mul ops (fl_div ops (fl_sub ops new_t old_t) old_t) (fl_of_int ops 100))
            else PyInt 0)
   \<and> (fl_is_zero ops old_t \<longrightarrow> pct_of ops change (PyFloat old_t) = Inr (PyInt 0))
   \<and> compare_case ops name old_times new_times =
     Inr \<lparr>case_name = name, case_rows = map (expected_row ops) (zip old_times new_times),
          case_total_old = paired_old ops old_times new_times,
          case_total_new = paired_new ops old_times new_times,
          case_total_change =
            py_sub ops (paired_new ops old_times new_times) (paired_old ops old_times new_times),
          case_total_pct = guarded_pct ops (paired_old ops old_times new_times)
                                           (paired_new ops old_times new_times)\<rparr>
   \<and> overall_summary ops g_old g_new =
     Inr \<lparr>grand_total_old = g_old, grand_total_new = g_new,
          grand_change = py_sub ops g_new g_old, grand_pct = guarded_pct ops g_old g_new\<rparr>
   \<and> guarded_pct exact_ops (PyFloat old_r) (PyFloat new_r) =
       (if old_r > 0 then PyFloat (100 * (new_r - old_r) / old_r) else PyInt 0)"
proof -
  have row: "pct_of ops (py_sub ops (PyFloat new_t) (PyFloat old_t)) (PyFloat old_t) =
       Inr (if fl_pos ops old_t
            then PyFloat (fl_mul ops (fl_div ops (fl_sub ops new_t old_t) old_t) (fl_of_int ops 100))
            else PyInt 0)"
    using assms pct_of_guarded [of ops "PyFloat new_t" "PyFloat old_t"]
    by (simp add: guarded_pct_floats)
  have zero: "fl_is_zero ops old_t \<longrightarrow> pct_of ops change (PyFloat old_t) = Inr (PyInt 0)"
  proof
    assume "fl_is_zero ops old_t"
    with assms have "\<not> py_gt0 ops (PyFloat old_t)"
      using float_okD [of ops "PyFloat old_t"] by auto
    then show "pct_of ops change (PyFloat old_t) = Inr (PyInt 0)"
      by (rule pct_of_not_positive)
  qed
  have grand: "overall_summary ops g_old g_new =
     Inr \<lparr>grand_total_old = g_old, grand_total_new = g_new,
          grand_change = py_sub ops g_new g_old, grand_pct = guarded_pct ops g_old g_new\<rparr>"
    using assms by (simp add: overall_summary_def pct_of_guarded ebind_def)
  have exact: "guarded_pct exact_ops (PyFloat old_r) (PyFloat new_r) =
       (if old_r > 0 then PyFloat (100 * (new_r - old_r) / old_r) else PyInt 0)"
    by (simp add: guarded_pct_floats exact_ops_def rounded_ops_def)
  from row zero compare_case_expected [OF assms] grand exact show ?thesis
    by blast
qed

theorem guarded_percentages_witness:
  "float_ok exact_ops
   \<and> fl_is_zero exact_ops 0
   \<and> pct_of exact_ops (PyFloat 5) (PyFloat 0) = Inr (PyInt 0)
   \<and> compare_case exact_ops ''Ackley'' [(100, 5, 1), (200, 10, 2)]
        [(100, 5, 11 / 10), (200, 10, 18 / 10)] =
     Inr \<lparr>case_name = ''Ackley'',
          case_rows = [\<lparr>row_pop = 100, row_reg = 5, row_old = 1, row_new = 11 / 10,
                        row_change = PyFloat (1 / 10), row_pct = PyFloat 10\<rparr>,
                       \<lparr>row_pop = 200, row_reg = 10, row_old = 2, row_new = 18 / 10,
                        row_change = PyFloat (- (2 / 10)), row_pct = PyFloat (- 10)\<rparr>],
          case_total_old = PyFloat 3, case_total_new = PyFloat (29 / 10),
          case_total_change = PyFloat (- (1 / 10)), case_total_pct = PyFloat (- (10 / 3))\<rparr>"
proof -
  have zero: "fl_is_zero exact_ops 0"
    by (simp add: exact_ops_def rounded_ops_def)
  show ?thesis
    using float_ok_exact zero
      guarded_percentages [OF float_ok_exact, where old_t = 0 and change = "PyFloat 5"
        and name = "''Ackley''" and old_times = "[(100, 5, 1), (200, 10, 2)]"
        and new_times = "[(100, 5, 11 / 10), (200, 10, 18 / 10)]"]
    by (simp add: expected_row_def paired_old_def paired_new_def guarded_pct_def
        exact_ops_def rounded_ops_def)
qed

lemma rounding_step:
  fixes x y :: real
  assumes "\<bar>y - x\<bar> \<le> d * \<bar>x\<bar>" "\<bar>r - y\<bar> \<le> eps * \<bar>y\<bar>" "0 \<le> eps"
  shows "\<bar>r - x\<bar> \<le> ((1 + d) * (1 + eps) - 1) * \<bar>x\<bar>"
proof -
  have "\<bar>y\<bar> \<le> \<bar>x\<bar> + \<bar>y - x\<bar>" by simp
  with assms(1) have "\<bar>y\<bar> \<le> (1 + d) * \<bar>x\<bar>" by (simp add: algebra_simps)
  then have "eps * \<bar>y\<bar> \<le> eps * ((1 + d) * \<bar>x\<bar>)"
    using assms(3) by (rule mult_left_mono)
  with assms(2) have "\<bar>r - y\<bar> \<le> eps * ((1 + d) * \<bar>x\<bar>)" by simp
  moreover have "\<bar>r - x\<bar> \<le> \<bar>r - y\<bar> + \<bar>y - x\<bar>" by simp
  ultimately have "\<bar>r - x\<bar> \<le> eps * ((1 + d) * \<bar>x\<bar>) + d * \<bar>x\<bar>"
    using assms(1) by linarith
  then show ?thesis by (simp add: algebra_simps)
qed

lemma rel_error_mult:
  fixes x y :: real
  assumes "\<bar>y - x\<bar> \<le> d * \<bar>x\<bar>" "0 < k"
  shows "\<bar>y * k - x * k\<bar> \<le> d * \<bar>x * k\<bar>"
proof -
  have "\<bar>y * k - x * k\<bar> = \<bar>y - x\<bar> * k"
    using assms(2) by (simp add: abs_mult flip: left_diff_distrib)
  also have "\<dots> \<le> d * \<bar>x\<bar> * k"
    using assms by (simp add: mult_right_mono)
  also have "\<dots> = d * \<bar>x * k\<bar>"
    using assms(2) by (simp add: abs_mult)
  finally show ?thesis .
qed

lemma rel_error_divide:
  fixes x y :: real
  assumes "\<bar>y - x\<bar> \<le> d * \<bar>x\<bar>" "0 < k"
  shows "\<bar>y / k - x / k\<bar> \<le> d * \<bar>x / k\<bar>"
  using rel_error_mult [OF assms(1), of "1 / k"] assms(2) by simp

lemma pct_rounding_error:
  assumes rnd: "\<And>x. \<bar>rnd x - x\<bar> \<le> eps * \<bar>x\<bar>" and pos: "0 < old_r"
  shows "\<exists>p. guarded_pct (rounded_ops rnd) (PyFloat old_r) (PyFloat new_r) = PyFloat p
     \<and> \<bar>p - 100 * (new_r - old_r) / old_r\<bar>
         \<le> ((1 + eps) ^ 3 - 1) * \<bar>100 * (new_r - old_r) / old_r\<bar>"
proof -
  have eps: "0 \<le> eps"
    using rnd [of 1] by simp
  define x1 where "x1 = new_r - old_r"
  define c where "c = rnd x1"
  define q where "q = rnd (c / old_r)"
  define p where "p = rnd (q * 100)"
  have "\<bar>c - x1\<bar> \<le> eps * \<bar>x1\<bar>"
    unfolding c_def by (rule rnd)
  then have "\<bar>c / old_r - x1 / old_r\<bar> \<le> eps * \<bar>x1 / old_r\<bar>"
    using pos by (rule rel_error_divide)
  moreover have "\<bar>q - c / old_r\<bar> \<le> eps * \<bar>c / old_r\<bar>"
    unfolding q_def by (rule rnd)
  ultimately have "\<bar>q - x1 / old_r\<bar> \<le> ((1 + eps) * (1 + eps) - 1) * \<bar>x1 / old_r\<bar>"
    using eps by (rule rounding_step)
  then have "\<bar>q * 100 - x1 / old_r * 100\<bar> \<le> ((1 + eps) * (1 + eps) - 1) * \<bar>x1 / old_r * 100\<bar>"
    by (rule rel_error_mult) simp
  moreover have "\<bar>p - q * 100\<bar> \<le> eps * \<bar>q * 100\<bar>"
    unfolding p_def by (rule rnd)
  ultimately have bound: "\<bar>p - x1 / old_r * 100\<bar>
      \<le> ((1 + ((1 + eps) * (1 + eps) - 1)) * (1 + eps) - 1) * \<bar>x1 / old_r * 100\<bar>"
    using eps by (rule rounding_step)
  have factor: "(1 + ((1 + eps) * (1 + eps) - 1)) * (1 + eps) - 1 = (1 + eps) ^ 3 - 1"
    by (simp add: power3_eq_cube)
  have exact: "x1 / old_r * 100 = 100 * (new_r - old_r) / old_r"
    by (simp add: x1_def)
  have "\<bar>p - 100 * (new_r - old_r) / old_r\<bar>
      \<le> ((1 + eps) ^ 3 - 1) * \<bar>100 * (new_r - old_r) / old_r\<bar>"
    using bound unfolding factor exact .
  moreover have "guarded_pct (rounded_ops rnd) (PyFloat old_r) (PyFloat new_r) = PyFloat p"
    using pos by (simp add: guarded_pct_floats rounded_ops_def p_def q_def c_def x1_def)
  ultimately show ?thesis by blast
qed

section \<open>The examples of the specification, evaluated\<close>

text \<open>The set iteration order is taken to be \<open>remdups\<close> here; none of the values
  below depends on it beyond the order of equal counts. The comparison is evaluated in
  exact arithmetic; the last example rounds every float result to an integer and shows
  that the order of the operations then matters.\<close>

lemma example_end_to_end:
  "analyze_profile remdups
     \<lparr>shared = \<lparr>frames = [Some ''a'', Some ''b'']\<rparr>, profiles = [\<lparr>samples = [[0, 1], [1]]\<rparr>]\<rparr> =
   Inr \<lparr>report_total = 2,
        top_exclusive = [\<lparr>line_count = 2, line_percent = 100, line_name = ''b''\<rparr>],
        top_inclusive = [\<lparr>line_count = 2, line_percent = 100, line_name = ''b''\<rparr>,
                         \<lparr>line_count = 1, line_percent = 50, line_name = ''a''\<rparr>],
        specific_checks = []\<rparr>"
  by code_simp

lemma example_repeated_frame:
  "exclusive_counter (accumulate remdups [\<lparr>samples = [[2, 2, 3]]\<rparr>]) = [(3, 1)]
   \<and> inclusive_counter (accumulate remdups [\<lparr>samples = [[2, 2, 3]]\<rparr>]) = [(2, 1), (3, 1)]"
  by code_simp

lemma example_mutex:
  "map fst (matches [''sys::Mutex::lock'', ''main'', ''MutexGuard::drop'', ''parking_lot::RawMUTEX''] ''Mutex'')
     = [0, 2, 3]"
  by code_simp

lemma example_targets:
  "analyze_profile remdups
     \<lparr>shared = \<lparr>frames = [Some ''sys::Mutex::lock'', Some ''MutexGuard::drop'', None]\<rparr>,
      profiles = [\<lparr>samples = [[2, 0], [2, 1], [2], []]\<rparr>]\<rparr> =
   Inr \<lparr>report_total = 4,
        top_exclusive = [\<lparr>line_count = 1, line_percent = 25, line_name = ''sys::Mutex::lock''\<rparr>,
                         \<lparr>line_count = 1, line_percent = 25, line_name = ''MutexGuard::drop''\<rparr>,
                         \<lparr>line_count = 1, line_percent = 25, line_name = ''unknown''\<rparr>],
        top_inclusive = [\<lparr>line_count = 3, line_percent = 75, line_name = ''unknown''\<rparr>,
                         \<lparr>line_count = 1, line_percent = 25, line_name = ''sys::Mutex::lock''\<rparr>,
                         \<lparr>line_count = 1, line_percent = 25, line_name = ''MutexGuard::drop''\<rparr>],
        specific_checks = [\<lparr>target = ''Mutex'', total_inc = 2, inc_percent = 50,
                            total_exc = 2, exc_percent = 50\<rparr>]\<rparr>"
  by code_simp

lemma example_index_error:
  "analyze_profile remdups
     \<lparr>shared = \<lparr>frames = [Some ''a'']\<rparr>, profiles = [\<lparr>samples = [[0, 5]]\<rparr>]\<rparr> = Inl IndexError"
  by code_simp

lemma example_comparison:
  "compare_case exact_ops ''Ackley'' [(100, 5, 0)] [(100, 5, 11 / 10)] =
   Inr \<lparr>case_name = ''Ackley'',
        case_rows = [\<lparr>row_pop = 100, row_reg = 5, row_old = 0, row_new = 11 / 10,
                      row_change = PyFloat (11 / 10), row_pct = PyInt 0\<rparr>],
        case_total_old = PyFloat 0, case_total_new = PyFloat (11 / 10),
        case_total_change = PyFloat (11 / 10), case_total_pct = PyInt 0\<rparr>"
  by (simp add: compare_case_def ebind_def pct_of_def exact_ops_def rounded_ops_def)

lemma example_rounding_order:
  "guarded_pct (rounded_ops (\<lambda>x. real_of_int (round x))) (PyFloat 3) (PyFloat 4) = PyFloat 0
   \<and> real_of_int (round (100 * (4 - 3) / 3 :: real)) = 33"
  by (simp add: guarded_pct_floats rounded_ops_def round_def)

end
